theory Spec2Isabelle
  imports Complex_Main "HOL-Library.Word" "HOL-Library.Char_ord" "HOL-Library.List_Lexorder"
    "HOL-Library.Log_Nat"
begin

section \<open>Bucket-occupancy histograms: the plotting script of the hash quality test\<close>

text \<open>
  A shallow embedding of \<^verbatim>\<open>scripts_plot_hash_bucket_histograms.py\<close>. Arrays are lists,
  Python's unbounded integers are \<^typ>\<open>int\<close>, an exception is the \<open>Inl\<close> branch of a sum.
\<close>

subsection \<open>Exceptions\<close>

datatype error =
    SystemExit string     \<comment> \<open>\<^verbatim>\<open>raise SystemExit(msg)\<close> in \<^verbatim>\<open>main\<close>\<close>
  | ValueError string     \<comment> \<open>\<^verbatim>\<open>raise ValueError(msg)\<close> in \<^verbatim>\<open>load_algorithm\<close>\<close>
  | LibraryValueError     \<comment> \<open>a \<^verbatim>\<open>ValueError\<close> raised inside numpy or a builtin, with the library's text\<close>
  | KeyError string       \<comment> \<open>subscript of the metadata dict with an absent key\<close>
  | IndexError            \<comment> \<open>\<^verbatim>\<open>k[-1]\<close> on an empty array\<close>
  | ZeroDivisionError     \<comment> \<open>\<^verbatim>\<open>num_inputs / num_buckets\<close> with zero buckets\<close>
  | OSError string        \<comment> \<open>a file that cannot be opened\<close>
  | JSONDecodeError string \<comment> \<open>a metadata file that is not JSON\<close>
  | RenderError string    \<comment> \<open>an exception out of the drawing calls\<close>

subsection \<open>Histogram\<close>

text \<open>
  \<^verbatim>\<open>np.bincount\<close>: rejects a negative element; otherwise allocates \<open>amax + 1\<close> zeros
  (none for an empty input) and adds one at the index of every element in turn.
\<close>

definition bincount :: "int list \<Rightarrow> error + nat list" where
  "bincount xs =
     (if list_ex (\<lambda>x. x < 0) xs then Inl LibraryValueError
      else Inr (foldl (\<lambda>h x. h[nat x := h ! nat x + 1])
                  (replicate (if xs = [] then 0 else nat (Max (set xs)) + 1) 0) xs))"

text \<open>
  Python's \<^verbatim>\<open>a[:stop]\<close>: a negative \<open>stop\<close> counts from the end, and both ends clamp.
\<close>

definition slice_to :: "'a list \<Rightarrow> int \<Rightarrow> 'a list" where
  "slice_to xs stop =
     (if 0 \<le> stop then take (nat stop) xs else take (nat (int (length xs) + stop)) xs)"

text \<open>
  \<^verbatim>\<open>compute_hist(counts, max_k)\<close>; \<open>None\<close> is the default \<^verbatim>\<open>max_k=None\<close>.
  \<^verbatim>\<open>np.arange(0, max_k + 1)\<close> is the list \<open>[0..max_k]\<close>, empty when \<open>max_k < 0\<close>.
  The conversion \<^verbatim>\<open>astype(np.int64)\<close> keeps the value of every 32-bit count.
\<close>

definition compute_hist :: "int list \<Rightarrow> int option \<Rightarrow> error + (int list \<times> nat list)" where
  "compute_hist counts max_k =
     (case bincount counts of
        Inl e \<Rightarrow> Inl e
      | Inr hist \<Rightarrow>
          let mk = (case max_k of
                      None \<Rightarrow> int (length hist) - 1
                    | Some m \<Rightarrow> min m (int (length hist) - 1))
          in Inr ([0..mk], slice_to hist (mk + 1)))"

subsection \<open>Strings\<close>

text \<open>
  \<^verbatim>\<open>str.lower\<close> on the ASCII letters; \<^verbatim>\<open>str.startswith\<close>; \<^verbatim>\<open>str(n)\<close> of an integer,
  as the f-strings of the script format it.
\<close>

definition lower_char :: "char \<Rightarrow> char" where
  "lower_char c =
     (let n = (of_char c :: nat) in if 65 \<le> n \<and> n \<le> 90 then char_of (n + 32) else c)"

definition lower :: "string \<Rightarrow> string" where
  "lower s = map lower_char s"

definition startswith :: "string \<Rightarrow> string \<Rightarrow> bool" where
  "startswith s p = (take (length p) s = p)"

fun show_nat :: "nat \<Rightarrow> string" where
  "show_nat n =
     (if n < 10 then [''0123456789'' ! n]
      else show_nat (n div 10) @ [''0123456789'' ! (n mod 10)])"

definition show_int :: "int \<Rightarrow> string" where
  "show_int i = (if i < 0 then CHR ''-'' # show_nat (nat (- i)) else show_nat (nat i))"

text \<open>
  \<^verbatim>\<open>sanitize_filename\<close>. Which characters \<^verbatim>\<open>str.isalnum\<close> accepts is given by the
  Unicode tables of the interpreter: the predicate is a parameter.
\<close>

definition sanitize_filename :: "(char \<Rightarrow> bool) \<Rightarrow> string \<Rightarrow> string" where
  "sanitize_filename isalnum s =
     map (\<lambda>c. if isalnum c \<or> c \<in> set ''._-'' then c else CHR ''_'') s"

subsection \<open>Floating point\<close>

text \<open>
  A Python \<^verbatim>\<open>float\<close> and a numpy \<^verbatim>\<open>float64\<close> are IEEE 754 binary64 numbers. A finite
  one is modelled by the rational it denotes, and an operation by the exact result
  rounded to the nearest binary64, ties to even: 53 significant bits, with the
  fixed spacing \<open>2 ^ - 1074\<close> below \<open>2 ^ - 1022\<close>. The exponent is not bounded above:
  a result beyond the largest finite binary64 is outside the model.
\<close>

definition ilog2 :: "rat \<Rightarrow> int" where
  \<comment> \<open>the \<open>e\<close> with \<open>2 ^ e \<le> a < 2 ^ (e + 1)\<close>, for \<open>a > 0\<close>\<close>
  "ilog2 a =
     (case quotient_of a of
        (n, d) \<Rightarrow> (let e = bitlen n - bitlen d in if 2 powi e \<le> a then e else e - 1))"

definition round_half_even :: "rat \<Rightarrow> int" where
  "round_half_even q =
     (let f = \<lfloor>q\<rfloor>; r = q - of_int f
      in if r < 1 / 2 then f else if 1 / 2 < r then f + 1 else if even f then f else f + 1)"

definition round64 :: "rat \<Rightarrow> rat" where
  "round64 x =
     (if x = 0 then 0
      else (let a = \<bar>x\<bar>; e = max (ilog2 a) (- 1022); u = 2 powi (e - 52)
            in sgn x * of_int (round_half_even (a / u)) * u))"

definition fmul :: "rat \<Rightarrow> rat \<Rightarrow> rat" where
  "fmul a b = round64 (a * b)"

definition fdiv :: "rat \<Rightarrow> rat \<Rightarrow> rat" where
  "fdiv a b = round64 (a / b)"

text \<open>The conversion of an integer operand to \<^verbatim>\<open>float\<close>.\<close>

definition float_of_int :: "int \<Rightarrow> rat" where
  "float_of_int n = round64 (of_int n)"



text \<open>The value of the variable \<open>p\<close> after \<open>k\<close> passes of the loop.\<close>

fun poisson_p :: "(rat \<Rightarrow> rat) \<Rightarrow> rat \<Rightarrow> nat \<Rightarrow> rat" where
  "poisson_p ex lam 0 = ex (- lam)"
| "poisson_p ex lam (Suc k) = fdiv (fmul (poisson_p ex lam k) lam) (float_of_int (int k + 1))"



subsection \<open>Metadata and the counts file\<close>

text \<open>
  The metadata dict after \<^verbatim>\<open>json.load\<close>. A field is \<open>None\<close> when the key is
  absent; the values have the types the exporting test writes.
\<close>

record meta =
  algorithm :: "string option"
  numBuckets :: "int option"
  numInputs :: "int option"
  countsFile :: "string option"
  endianness :: "string option"

datatype byteorder = Little | Big

text \<open>One \<^verbatim>\<open>i4\<close> item: four bytes in the given order, read as two's complement.\<close>

definition i32_of_bytes :: "byteorder \<Rightarrow> 8 word \<Rightarrow> 8 word \<Rightarrow> 8 word \<Rightarrow> 8 word \<Rightarrow> int" where
  "i32_of_bytes bo b0 b1 b2 b3 =
     (case bo of
        Little \<Rightarrow>
          sint (word_of_int (uint b0 + 256 * uint b1 + 65536 * uint b2 + 16777216 * uint b3) :: 32 word)
      | Big \<Rightarrow>
          sint (word_of_int (uint b3 + 256 * uint b2 + 65536 * uint b1 + 16777216 * uint b0) :: 32 word))"

text \<open>
  \<^verbatim>\<open>np.fromfile(f, dtype)\<close> on the bytes of a file: as many whole items as the
  file holds; trailing bytes that do not fill an item are not read.
\<close>

fun fromfile :: "byteorder \<Rightarrow> 8 word list \<Rightarrow> int list" where
  "fromfile bo (b0 # b1 # b2 # b3 # bs) = i32_of_bytes bo b0 b1 b2 b3 # fromfile bo bs"
| "fromfile bo bs = []"

text \<open>
  Lines 33 to 37 of \<^verbatim>\<open>load_algorithm\<close>: the dtype starts as \<^verbatim>\<open>np.int32\<close>, which
  has the byte order of the host (the parameter \<open>native\<close>), and is replaced when the
  lower-cased \<^verbatim>\<open>endianness\<close> field (default \<^verbatim>\<open>"little"\<close>) starts with
  \<^verbatim>\<open>"little"\<close> or with \<^verbatim>\<open>"big"\<close>.
\<close>

definition counts_dtype :: "byteorder \<Rightarrow> meta \<Rightarrow> byteorder" where
  "counts_dtype native m =
     (let e = lower (case endianness m of None \<Rightarrow> ''little'' | Some v \<Rightarrow> v)
      in if startswith e ''little'' then Little
         else if startswith e ''big'' then Big
         else native)"

text \<open>
  A \<^verbatim>\<open>pathlib\<close> path on a POSIX system: an anchor (empty, one slash, or two slashes
  when the text starts with exactly two) and the components between slashes, without
  the empty ones and the single dots. Its text is the anchor and the components joined
  by slashes, and a dot when there is neither. \<^verbatim>\<open>p / s\<close> is \<open>s\<close> alone when \<open>s\<close> is
  absolute and otherwise appends the components of \<open>s\<close>; the parent drops the last
  component.
\<close>

record pypath =
  anchor :: string
  parts :: "string list"

fun split_slash :: "string \<Rightarrow> string list" where
  "split_slash [] = [[]]"
| "split_slash (c # cs) =
     (if c = CHR ''/'' then [] # split_slash cs
      else (case split_slash cs of w # ws \<Rightarrow> (c # w) # ws | [] \<Rightarrow> [[c]]))"

definition Path :: "string \<Rightarrow> pypath" where
  "Path s =
     \<lparr>anchor = (if take 2 s = ''//'' \<and> take 3 s \<noteq> ''///'' then ''//''
                else if take 1 s = ''/'' then ''/'' else []),
      parts = filter (\<lambda>w. w \<noteq> [] \<and> w \<noteq> ''.'') (split_slash s)\<rparr>"

fun join_slash :: "string list \<Rightarrow> string" where
  "join_slash [] = []"
| "join_slash [w] = w"
| "join_slash (w # ws) = w @ CHR ''/'' # join_slash ws"

definition path_str :: "pypath \<Rightarrow> string" where
  "path_str p = (if anchor p = [] \<and> parts p = [] then ''.'' else anchor p @ join_slash (parts p))"

definition joinpath :: "pypath \<Rightarrow> string \<Rightarrow> pypath" where
  "joinpath p s =
     (if take 1 s = ''/'' then Path s
      else \<lparr>anchor = anchor p, parts = parts p @ parts (Path s)\<rparr>)"

definition path_parent :: "pypath \<Rightarrow> pypath" where
  "path_parent p = p\<lparr>parts := butlast (parts p)\<rparr>"

text \<open>
  The files the script reads, by the text of their paths. \<open>glob_meta d\<close> lists the
  names in directory \<open>d\<close> that match \<^verbatim>\<open>*.meta.json\<close>, in the order \<^verbatim>\<open>glob\<close> yields
  them.
\<close>

record fs =
  path_exists :: "string \<Rightarrow> bool"
  glob_meta :: "string \<Rightarrow> string list"
  json_files :: "string \<rightharpoonup> meta"
  bin_files :: "string \<rightharpoonup> 8 word list"
  mkdir :: "string \<Rightarrow> error option"

text \<open>The text of \<^verbatim>\<open>d / n\<close>, for a path given by its text \<open>d\<close>.\<close>

definition path_join :: "string \<Rightarrow> string \<Rightarrow> string" where
  "path_join d n = path_str (joinpath (Path d) n)"

text \<open>
  \<^verbatim>\<open>load_algorithm\<close>. \<open>parent\<close> is \<^verbatim>\<open>meta_path.parent\<close>, the directory the
  metadata file was found in.
\<close>

definition load_algorithm ::
  "byteorder \<Rightarrow> fs \<Rightarrow> string \<Rightarrow> string \<Rightarrow> error + (meta \<times> int list)" where
  "load_algorithm native f parent meta_path =
     (case json_files f meta_path of
        None \<Rightarrow> Inl (JSONDecodeError meta_path)
      | Some m \<Rightarrow>
         (case countsFile m of
            None \<Rightarrow> Inl (KeyError ''countsFile'')
          | Some cf \<Rightarrow>
             (case bin_files f (path_join parent cf) of
                None \<Rightarrow> Inl (OSError (path_join parent cf))
              | Some bytes \<Rightarrow>
                 (let counts = fromfile (counts_dtype native m) bytes in
                  case numBuckets m of
                    None \<Rightarrow> Inl (KeyError ''numBuckets'')
                  | Some nb \<Rightarrow>
                     if int (length counts) \<noteq> nb
                     then Inl (ValueError (''Counts size '' @ show_int (int (length counts))
                                 @ '' != numBuckets '' @ show_int nb @ '' for '' @ meta_path))
                     else Inr (m, counts)))))"

subsection \<open>Charts\<close>

text \<open>
  The drawing calls of the plotting library are outside the embedding: \<open>draw p\<close> says
  whether producing the figure saved at \<open>p\<close> raises, in a drawing call or in the
  floating-point arithmetic that feeds it. The flags \<^verbatim>\<open>logy\<close> and \<^verbatim>\<open>show_poisson\<close>
  change the drawing only. What the script itself decides is written out: the
  subscripts of the metadata, the division \<^verbatim>\<open>num_inputs / num_buckets\<close> by zero,
  \<^verbatim>\<open>k.max()\<close> (which raises on an empty array, as does drawing bars for an empty
  \<open>k\<close> against a non-empty \<open>y\<close>), and the file name. \<open>out_dir\<close> is the text of the
  output directory, a path that ends in a directory name: joining the name of the
  image appends a slash and the name.
\<close>

definition plot_per_algorithm ::
  "(char \<Rightarrow> bool) \<Rightarrow> (string \<Rightarrow> error option) \<Rightarrow> meta \<Rightarrow> int list \<Rightarrow> nat list \<Rightarrow> string
     \<Rightarrow> error + string" where
  "plot_per_algorithm isalnum draw m k y out_dir =
     (case algorithm m of
        None \<Rightarrow> Inl (KeyError ''algorithm'')
      | Some alg \<Rightarrow>
         (case numBuckets m of
            None \<Rightarrow> Inl (KeyError ''numBuckets'')
          | Some num_buckets \<Rightarrow>
             (case numInputs m of
                None \<Rightarrow> Inl (KeyError ''numInputs'')
              | Some num_inputs \<Rightarrow>
                 if num_buckets = 0 then Inl ZeroDivisionError
                 else if k = [] then Inl LibraryValueError
                 else
                   (let out_path = out_dir @ ''/'' @ ''hist_'' @ sanitize_filename isalnum alg @ ''.png''
                    in case draw out_path of
                         Some e \<Rightarrow> Inl e
                       | None \<Rightarrow> Inr out_path))))"

text \<open>
  A plotted value. \<^verbatim>\<open>y / y.sum()\<close> divides an integer array by an integer: numpy
  converts both to \<^verbatim>\<open>float64\<close> and divides. A zero sum does not raise: numpy gives
  \<^verbatim>\<open>nan\<close> for \<open>0 / 0\<close>, and every entry of \<open>y\<close> is \<open>0\<close> when the sum is.
\<close>

datatype fval = NaN | Val rat

definition normalized :: "nat list \<Rightarrow> fval list" where
  "normalized y =
     map (\<lambda>v. if sum_list y = 0 then NaN
              else Val (fdiv (float_of_int (int v)) (float_of_int (int (sum_list y))))) y"

type_synonym table = "meta \<times> int list \<times> nat list"
type_synonym series = "string \<times> int list \<times> fval list"

text \<open>The loop of \<^verbatim>\<open>plot_overlay\<close>: one line per algorithm, in order.\<close>

fun overlay_lines :: "bool \<Rightarrow> table list \<Rightarrow> error + series list" where
  "overlay_lines nrm [] = Inr []"
| "overlay_lines nrm ((m, k, y) # ts) =
     (case algorithm m of
        None \<Rightarrow> Inl (KeyError ''algorithm'')
      | Some label \<Rightarrow>
         (let y_plot = (if nrm then normalized y else map (\<lambda>v. Val (of_nat v)) y)
          in case overlay_lines nrm ts of
               Inl e \<Rightarrow> Inl e
             | Inr ls \<Rightarrow> Inr ((label, k, y_plot) # ls)))"

definition plot_overlay ::
  "(string \<Rightarrow> error option) \<Rightarrow> table list \<Rightarrow> string \<Rightarrow> bool \<Rightarrow> error + (string \<times> series list)" where
  "plot_overlay draw alg_results out_dir nrm =
     (case overlay_lines nrm alg_results of
        Inl e \<Rightarrow> Inl e
      | Inr ls \<Rightarrow>
         (let out_path = path_join out_dir ''hist_overlay.png''
          in case draw out_path of
               Some e \<Rightarrow> Inl e
             | None \<Rightarrow> Inr (out_path, ls)))"

subsection \<open>The driver\<close>

record args =
  results_dir :: string
  max_k :: "int option"
  overlay :: bool
  logy :: bool

text \<open>What the interpreter and its libraries decide, not the script.\<close>

record platform =
  native_order :: byteorder
  str_isalnum :: "char \<Rightarrow> bool"
  drawing :: "string \<Rightarrow> error option"

record run_output =
  printed :: "string list"
  images :: "string list"
  overlay_series :: "series list option"

text \<open>
  The loop over the metadata files: the tables collected, and the images written.
  Each path is the text \<^verbatim>\<open>glob\<close> returned, and \<^verbatim>\<open>load_algorithm\<close> resolves the counts
  file against its parent.
\<close>

fun run_algorithms ::
  "platform \<Rightarrow> fs \<Rightarrow> int option \<Rightarrow> string \<Rightarrow> string list \<Rightarrow> error + (table list \<times> string list)" where
  "run_algorithms p f mk out_dir [] = Inr ([], [])"
| "run_algorithms p f mk out_dir (meta_path # rest) =
     (case load_algorithm (native_order p) f (path_str (path_parent (Path meta_path))) meta_path of
        Inl e \<Rightarrow> Inl e
      | Inr (m, counts) \<Rightarrow>
         (case compute_hist counts mk of
            Inl e \<Rightarrow> Inl e
          | Inr (k, y) \<Rightarrow>
             (case plot_per_algorithm (str_isalnum p) (drawing p) m k y out_dir of
                Inl e \<Rightarrow> Inl e
              | Inr img \<Rightarrow>
                 (case run_algorithms p f mk out_dir rest of
                    Inl e \<Rightarrow> Inl e
                  | Inr (tabs, imgs) \<Rightarrow> Inr ((m, k, y) # tabs, img # imgs)))))"

text \<open>\<^verbatim>\<open>int(k[-1])\<close> for every table, in order; an empty \<open>k\<close> has no last entry.\<close>

fun last_ks :: "table list \<Rightarrow> error + int list" where
  "last_ks [] = Inr []"
| "last_ks ((m, k, y) # ts) =
     (if k = [] then Inl IndexError
      else case last_ks ts of Inl e \<Rightarrow> Inl e | Inr ls \<Rightarrow> Inr (last k # ls))"

text \<open>
  Lines 173 to 179 of \<^verbatim>\<open>main\<close>: the alignment of the tables for the overlay.
  \<^verbatim>\<open>min\<close> of no values raises.
\<close>

definition align :: "table list \<Rightarrow> error + table list" where
  "align overlay_data =
     (case last_ks overlay_data of
        Inl e \<Rightarrow> Inl e
      | Inr ls \<Rightarrow>
         if ls = [] then Inl LibraryValueError
         else
           (let min_max_k = Min (set ls)
            in Inr (map (\<lambda>(m, k, y).
                      if last k > min_max_k
                      then (m, slice_to k (min_max_k + 1), slice_to y (min_max_k + 1))
                      else (m, k, y)) overlay_data)))"

text \<open>
  The local variables \<^verbatim>\<open>run_dir\<close>, \<^verbatim>\<open>meta_files\<close> and \<^verbatim>\<open>out_dir\<close> of \<^verbatim>\<open>main\<close>.
  \<^verbatim>\<open>glob\<close> returns, for each name it finds, the text of the pattern with the name in the
  place of \<^verbatim>\<open>*.meta.json\<close>.
\<close>

definition main_run_dir :: "args \<Rightarrow> pypath" where
  "main_run_dir a = Path (results_dir a)"

definition main_meta_files :: "fs \<Rightarrow> args \<Rightarrow> string list" where
  "main_meta_files f a =
     sort (map (\<lambda>n. path_str (joinpath (main_run_dir a) n))
             (glob_meta f (path_str (main_run_dir a))))"

definition main_out_dir :: "args \<Rightarrow> string" where
  "main_out_dir a = path_str (joinpath (main_run_dir a) ''plots'')"

definition main :: "platform \<Rightarrow> fs \<Rightarrow> args \<Rightarrow> error + run_output" where
  "main p f a =
     (if \<not> path_exists f (path_str (main_run_dir a))
      then Inl (SystemExit (''Directory not found: '' @ path_str (main_run_dir a)))
      else if main_meta_files f a = []
      then Inl (SystemExit (''No *.meta.json files found in '' @ path_str (main_run_dir a)))
      else
        (case mkdir f (main_out_dir a) of
           Some e \<Rightarrow> Inl e
         | None \<Rightarrow>
            (case run_algorithms p f (max_k a) (main_out_dir a) (main_meta_files f a) of
               Inl e \<Rightarrow> Inl e
             | Inr (overlay_data, imgs) \<Rightarrow>
                (let msg = ''Done. Plots written to: '' @ main_out_dir a in
                 if overlay a then
                   (case align overlay_data of
                      Inl e \<Rightarrow> Inl e
                    | Inr aligned \<Rightarrow>
                       (case plot_overlay (drawing p) aligned (main_out_dir a) True of
                          Inl e \<Rightarrow> Inl e
                        | Inr (img, ls) \<Rightarrow>
                           Inr \<lparr>printed = [msg], images = imgs @ [img],
                                overlay_series = Some ls\<rparr>))
                 else Inr \<lparr>printed = [msg], images = imgs, overlay_series = None\<rparr>))))"


subsection \<open>Concrete runs\<close>

text \<open>
  Inputs for running the definitions: the ASCII part of \<^verbatim>\<open>str.isalnum\<close>, a host on
  which no drawing call raises, the little-endian bytes of an array of counts, and a
  run directory that holds, for every algorithm listed, its metadata file and the
  counts file the metadata names.
\<close>

definition ascii_isalnum :: "char \<Rightarrow> bool" where
  "ascii_isalnum c =
     (let n = (of_char c :: nat)
      in (48 \<le> n \<and> n \<le> 57) \<or> (65 \<le> n \<and> n \<le> 90) \<or> (97 \<le> n \<and> n \<le> 122))"

definition host :: "byteorder \<Rightarrow> platform" where
  "host bo = \<lparr>native_order = bo, str_isalnum = ascii_isalnum, drawing = (\<lambda>p. None)\<rparr>"

definition le_bytes :: "int list \<Rightarrow> 8 word list" where
  "le_bytes vs =
     concat (map (\<lambda>v. [word_of_int v, word_of_int (v div 256),
                        word_of_int (v div 65536), word_of_int (v div 16777216)]) vs)"

definition meta_name :: "string \<Rightarrow> string" where
  "meta_name alg = alg @ ''.meta.json''"

definition counts_name :: "string \<Rightarrow> string" where
  "counts_name alg = alg @ ''_counts_i32_le.bin''"

definition exported_meta :: "string \<Rightarrow> int \<Rightarrow> int \<Rightarrow> string \<Rightarrow> meta" where
  "exported_meta alg nb ni e =
     \<lparr>algorithm = Some alg, numBuckets = Some nb, numInputs = Some ni,
      countsFile = Some (counts_name alg), endianness = Some e\<rparr>"

definition run_directory :: "string \<Rightarrow> (meta \<times> 8 word list) list \<Rightarrow> fs" where
  "run_directory d algs =
     \<lparr>path_exists = (\<lambda>p. p = path_str (Path d)),
      glob_meta = (\<lambda>p. if p = path_str (Path d)
                        then map (\<lambda>(m, bs). meta_name (case algorithm m of Some a \<Rightarrow> a | None \<Rightarrow> [])) algs
                        else []),
      json_files = map_of (map (\<lambda>(m, bs).
                      (path_join d (meta_name (case algorithm m of Some a \<Rightarrow> a | None \<Rightarrow> [])), m)) algs),
      bin_files = map_of (map (\<lambda>(m, bs).
                      (path_join d (case countsFile m of Some c \<Rightarrow> c | None \<Rightarrow> []), bs)) algs),
      mkdir = (\<lambda>p. None)\<rparr>"

text \<open>
  A run with two algorithms of three buckets each: \<open>A\<close> has buckets of 0, 1 and 2 items,
  \<open>B\<close> has buckets of 0, 1 and 1 items.
\<close>

definition meta_A :: meta where
  "meta_A = exported_meta ''A'' 3 3 ''little''"

definition meta_B :: meta where
  "meta_B = exported_meta ''B'' 3 3 ''LITTLE''"

definition two_algorithms :: fs where
  "two_algorithms = run_directory ''run'' [(meta_A, le_bytes [0, 1, 2]), (meta_B, le_bytes [0, 1, 1])]"




definition overlay_args :: "string \<Rightarrow> args" where
  "overlay_args d = \<lparr>results_dir = d, max_k = None, overlay = True, logy = False\<rparr>"



subsection \<open>Properties of the histogram\<close>

lemma length_foldl_bump:
  "length (foldl (\<lambda>h x. h[nat x := Suc (h ! nat x)]) h0 xs) = length h0"
  by (induction xs arbitrary: h0) simp_all

lemma nth_foldl_bump:
  assumes "j < length h0"
  shows "foldl (\<lambda>h x. h[nat x := Suc (h ! nat x)]) h0 xs ! j
           = h0 ! j + count_list (map nat xs) j"
  using assms
proof (induction xs arbitrary: h0)
  case Nil
  then show ?case by simp
next
  case (Cons x xs)
  have "j < length (h0[nat x := Suc (h0 ! nat x)])"
    using Cons.prems by simp
  from Cons.IH [OF this] show ?case
    using Cons.prems by (simp add: nth_list_update)
qed

lemma count_list_map_nat:
  assumes "\<forall>x\<in>set xs. (0::int) \<le> x"
  shows "count_list (map nat xs) j = count_list xs (int j)"
  using assms by (induction xs) auto

lemma sum_list_indicator:
  "(\<Sum>j\<leftarrow>[0..<n]. if x = j then 1 else 0) = (if x < n then 1 else (0::nat))"
  by (induction n) auto

lemma sum_list_count_filter:
  "(\<Sum>j\<leftarrow>[0..<n]. count_list xs j) = length (filter (\<lambda>x. x < n) xs)"
proof (induction xs)
  case Nil
  then show ?case by simp
next
  case (Cons x xs)
  have "(\<Sum>j\<leftarrow>[0..<n]. count_list (x # xs) j)
          = (\<Sum>j\<leftarrow>[0..<n]. count_list xs j + (if x = j then 1 else 0))"
    by (rule arg_cong [where f = sum_list]) simp
  also have "\<dots> = (\<Sum>j\<leftarrow>[0..<n]. count_list xs j) + (\<Sum>j\<leftarrow>[0..<n]. if x = j then 1 else 0)"
    by (simp add: sum_list_addf)
  also have "\<dots> = length (filter (\<lambda>x. x < n) xs) + (if x < n then 1 else 0)"
    using Cons by (simp add: sum_list_indicator)
  finally show ?case by simp
qed

lemma upto_eq_map_int: "[0..int n - 1] = map int [0..<n]"
  by (rule nth_equalityI) simp_all

lemma bincount_nonneg:
  assumes "\<forall>x\<in>set xs. 0 \<le> x"
  shows "bincount xs
           = Inr (map (\<lambda>j. count_list xs (int j))
                    [0..<(if xs = [] then 0 else nat (Max (set xs)) + 1)])"
proof -
  define n where "n = (if xs = [] then 0 else nat (Max (set xs)) + 1)"
  have neg: "\<not> list_ex (\<lambda>x. x < 0) xs"
    using assms by (auto simp: list_ex_iff)
  have "foldl (\<lambda>h x. h[nat x := Suc (h ! nat x)]) (replicate n 0) xs
          = map (\<lambda>j. count_list xs (int j)) [0..<n]"
    by (rule nth_equalityI)
       (simp_all add: length_foldl_bump nth_foldl_bump count_list_map_nat [OF assms])
  then show ?thesis
    using neg by (simp add: bincount_def n_def)
qed

lemma bincount_negative:
  assumes "\<exists>x\<in>set xs. x < 0"
  shows "bincount xs = Inl LibraryValueError"
  using assms by (simp add: bincount_def list_ex_iff)

lemma nat_below_hist_length:
  assumes "\<forall>x\<in>set xs. (0::int) \<le> x" and "x \<in> set xs"
  shows "nat x < nat (Max (set xs)) + 1"
proof -
  have "x \<le> Max (set xs)" using assms(2) by simp
  then show ?thesis by simp
qed

subsection \<open>The full histogram\<close>

lemma compute_hist_None:
  assumes "\<forall>x\<in>set counts. 0 \<le> x"
  defines "n \<equiv> (if counts = [] then 0 else nat (Max (set counts)) + 1)"
  shows "compute_hist counts None
           = Inr (map int [0..<n], map (\<lambda>j. count_list counts (int j)) [0..<n])"
    and "(\<Sum>j\<leftarrow>[0..<n]. count_list counts (int j)) = length counts"
proof -
  have b: "bincount counts = Inr (map (\<lambda>j. count_list counts (int j)) [0..<n])"
    using bincount_nonneg [OF assms(1)] by (simp add: n_def)
  show "compute_hist counts None
          = Inr (map int [0..<n], map (\<lambda>j. count_list counts (int j)) [0..<n])"
    using b by (simp add: compute_hist_def slice_to_def upto_eq_map_int)
  have "\<forall>x\<in>set (map nat counts). x < n"
    using nat_below_hist_length [OF assms(1)] by (auto simp: n_def)
  then have "filter (\<lambda>x. x < n) (map nat counts) = map nat counts"
    by (simp add: filter_id_conv)
  then have "(\<Sum>j\<leftarrow>[0..<n]. count_list (map nat counts) j) = length counts"
    using sum_list_count_filter [where n = n and xs = "map nat counts"] by simp
  then show "(\<Sum>j\<leftarrow>[0..<n]. count_list counts (int j)) = length counts"
    by (simp add: count_list_map_nat [OF assms(1)])
qed

text \<open>
  Claim C1. For a counts array of length \<open>N\<close> with no negative entry,
  \<^verbatim>\<open>compute_hist\<close> without a cap returns the full table: the frequencies sum to
  exactly \<open>N\<close>, the \<open>j\<close>-th value of \<open>k\<close> is \<open>j\<close>, and the frequency there is the number
  of entries of the array equal to \<open>j\<close>.
\<close>

theorem compute_hist_full_sum:
  assumes "\<forall>x\<in>set counts. 0 \<le> x"
  shows "\<exists>k y. compute_hist counts None = Inr (k, y)
           \<and> sum_list y = length counts
           \<and> length k = length y
           \<and> (\<forall>j<length y. k ! j = int j \<and> y ! j = count_list counts (int j))"
  using compute_hist_None [OF assms] by simp

theorem compute_hist_full_sum_witness:
  "compute_hist [0, 1, 1, 3] None = Inr ([0, 1, 2, 3], [1, 2, 0, 1])
   \<and> (\<exists>k y. compute_hist [0, 1, 1, 3] None = Inr (k, y)
         \<and> sum_list y = length [0, 1, 1, 3 :: int]
         \<and> length k = length y
         \<and> (\<forall>j<length y. k ! j = int j \<and> y ! j = count_list [0, 1, 1, 3] (int j)))"
proof -
  have h: "\<forall>x\<in>set [0, 1, 1, 3 :: int]. 0 \<le> x" by simp
  have c: "compute_hist [0, 1, 1, 3] None = Inr ([0, 1, 2, 3], [1, 2, 0, 1])" by code_simp
  from c compute_hist_full_sum [OF h] show ?thesis by blast
qed

lemma upto_eq_map_int_nat:
  assumes "0 \<le> mk + 1"
  shows "[0..mk] = map int [0..<nat (mk + 1)]"
  using upto_eq_map_int [of "nat (mk + 1)"] assms by simp

lemma sum_list_count_le:
  assumes "\<forall>x\<in>set xs. (0::int) \<le> x"
  shows "(\<Sum>j\<leftarrow>[0..<q]. count_list xs (int j)) = length (filter (\<lambda>x. x < int q) xs)"
proof -
  have "(\<Sum>j\<leftarrow>[0..<q]. count_list xs (int j)) = (\<Sum>j\<leftarrow>[0..<q]. count_list (map nat xs) j)"
    by (simp add: count_list_map_nat [OF assms])
  also have "\<dots> = length (filter (\<lambda>x. x < q) (map nat xs))"
    by (rule sum_list_count_filter)
  also have "\<dots> = length (filter (\<lambda>x. nat x < q) xs)"
    by (simp add: filter_map comp_def)
  also have "filter (\<lambda>x. nat x < q) xs = filter (\<lambda>x. x < int q) xs"
    using assms by (intro filter_cong) auto
  finally show ?thesis .
qed

lemma take_map_upt:
  assumes "q \<le> n"
  shows "take q (map f [0..<n]) = map f [0..<q]"
  using assms by (simp add: take_map)

subsection \<open>The capped histogram\<close>

text \<open>
  Claim C3. For a non-empty counts array with no negative entry and a cap \<open>m \<ge> 0\<close>,
  \<^verbatim>\<open>compute_hist\<close> returns the domain \<open>0..min m (maximum occupancy)\<close> and, beside it,
  the number of entries equal to each of its values. When the cap is below the maximum
  occupancy there are exactly \<open>m + 1\<close> entries, and the frequencies add up to the
  number of buckets that hold at most \<open>m\<close> items, which is fewer than all: the buckets
  beyond the cap are dropped, not counted in the last entry.
\<close>

theorem compute_hist_truncates:
  assumes "counts \<noteq> []" and "\<forall>x\<in>set counts. 0 \<le> x" and "0 \<le> m"
  shows "\<exists>k y. compute_hist counts (Some m) = Inr (k, y)
           \<and> k = [0..min m (Max (set counts))]
           \<and> y = map (count_list counts) k
           \<and> (m < Max (set counts) \<longrightarrow>
                 length k = nat m + 1 \<and> length y = nat m + 1
                 \<and> sum_list y = length (filter (\<lambda>x. x \<le> m) counts)
                 \<and> sum_list y < length counts)"
proof -
  define M where "M = Max (set counts)"
  define mk where "mk = min m M"
  define q where "q = nat (mk + 1)"
  have M_in: "M \<in> set counts"
    unfolding M_def using assms(1) by (intro Max_in) simp_all
  then have M0: "0 \<le> M" using assms(2) by blast
  have mk0: "0 \<le> mk" using assms(3) M0 by (simp add: mk_def)
  have q_le: "q \<le> nat M + 1" by (simp add: q_def mk_def)
  have b: "bincount counts = Inr (map (\<lambda>j. count_list counts (int j)) [0..<nat M + 1])"
    using bincount_nonneg [OF assms(2)] assms(1) by (simp add: M_def)
  have k_eq: "[0..mk] = map int [0..<q]"
    unfolding q_def using mk0 by (intro upto_eq_map_int_nat) simp
  have tk: "take q (map (\<lambda>j. count_list counts (int j)) [0..<nat M + 1])
              = map (\<lambda>j. count_list counts (int j)) [0..<q]"
    using q_le by (rule take_map_upt)
  have mk_eq: "min m (int (length (map (\<lambda>j. count_list counts (int j)) [0..<nat M + 1])) - 1) = mk"
    using M0 by (simp add: mk_def)
  have sl: "slice_to (map (\<lambda>j. count_list counts (int j)) [0..<nat M + 1]) (mk + 1)
              = map (count_list counts) [0..mk]"
    using mk0 tk by (simp add: slice_to_def q_def [symmetric] k_eq comp_def del: upt_Suc)
  have ch: "compute_hist counts (Some m) = Inr ([0..mk], map (count_list counts) [0..mk])"
    unfolding compute_hist_def b using mk_eq sl by (simp del: upt_Suc length_map)
  have trunc: "length [0..mk] = nat m + 1 \<and> length (map (count_list counts) [0..mk]) = nat m + 1
           \<and> sum_list (map (count_list counts) [0..mk]) = length (filter (\<lambda>x. x \<le> m) counts)
           \<and> sum_list (map (count_list counts) [0..mk]) < length counts"
    if lt: "m < M"
  proof -
    have mk_m: "mk = m" using lt by (simp add: mk_def)
    have "sum_list (map (count_list counts) [0..mk])
            = (\<Sum>j\<leftarrow>[0..<q]. count_list counts (int j))"
      by (simp add: k_eq comp_def)
    also have "\<dots> = length (filter (\<lambda>x. x < int q) counts)"
      by (rule sum_list_count_le [OF assms(2)])
    also have "(\<lambda>x. x < int q) = (\<lambda>x. x \<le> m)"
      using assms(3) by (auto simp: q_def mk_m)
    finally have s: "sum_list (map (count_list counts) [0..mk])
                       = length (filter (\<lambda>x. x \<le> m) counts)" .
    have "length (filter (\<lambda>x. x \<le> m) counts) < length counts"
      using M_in lt by (intro length_filter_less [of M]) simp_all
    with s show ?thesis
      using assms(3) by (simp add: mk_m)
  qed
  show ?thesis
    using ch trunc unfolding mk_def M_def by blast
qed

theorem compute_hist_truncates_witness:
  "compute_hist [0, 1, 1, 3] (Some 1) = Inr ([0, 1], [1, 2])
   \<and> (\<exists>k y. compute_hist [0, 1, 1, 3] (Some 1) = Inr (k, y)
           \<and> k = [0..min 1 (Max (set [0, 1, 1, 3]))]
           \<and> y = map (count_list [0, 1, 1, 3]) k
           \<and> (1 < Max (set [0, 1, 1, 3 :: int]) \<longrightarrow>
                 length k = nat 1 + 1 \<and> length y = nat 1 + 1
                 \<and> sum_list y = length (filter (\<lambda>x. x \<le> 1) [0, 1, 1, 3 :: int])
                 \<and> sum_list y < length [0, 1, 1, 3 :: int]))
   \<and> (1::int) < Max (set [0, 1, 1, 3])"
proof -
  have h1: "[0, 1, 1, 3 :: int] \<noteq> []" by simp
  have h2: "\<forall>x\<in>set [0, 1, 1, 3 :: int]. 0 \<le> x" by simp
  have h3: "(0::int) \<le> 1" by simp
  have c: "compute_hist [0, 1, 1, 3] (Some 1) = Inr ([0, 1], [1, 2])" by code_simp
  have lt: "(1::int) < Max (set [0, 1, 1, 3])" by simp
  from c lt compute_hist_truncates [OF h1 h2 h3] show ?thesis by blast
qed

subsection \<open>File names\<close>

lemma plot_per_algorithm_Inr:
  assumes "plot_per_algorithm isalnum draw m k y out_dir = Inr p"
  shows "\<exists>alg. algorithm m = Some alg
           \<and> p = out_dir @ ''/hist_'' @ sanitize_filename isalnum alg @ ''.png''"
  using assms
  by (auto simp: plot_per_algorithm_def append_assoc Let_def
           split: option.splits if_splits)

text \<open>
  Claim C8. The image of an algorithm is named \<open>hist_\<close>, the sanitized identifier,
  \<open>.png\<close>, in the output directory: whenever the chart is written that is its path, and
  it is written when the metadata has its fields, the bucket count is not zero, \<open>k\<close> is
  not empty and drawing does not raise. The sanitized identifier has the length of the
  identifier; at every position it has the character of the identifier when that is
  alphanumeric or one of \<open>.\<close>, \<open>_\<close>, \<open>-\<close>, and \<open>_\<close> otherwise.
\<close>

theorem image_name_sanitized:
  assumes "algorithm m = Some alg"
  shows "(\<forall>p. plot_per_algorithm isalnum draw m k y out_dir = Inr p
             \<longrightarrow> p = out_dir @ ''/hist_'' @ sanitize_filename isalnum alg @ ''.png'')
         \<and> (numBuckets m = Some nb \<and> nb \<noteq> 0 \<and> numInputs m = Some ni \<and> k \<noteq> []
              \<and> draw (out_dir @ ''/hist_'' @ sanitize_filename isalnum alg @ ''.png'') = None
             \<longrightarrow> plot_per_algorithm isalnum draw m k y out_dir
                   = Inr (out_dir @ ''/hist_'' @ sanitize_filename isalnum alg @ ''.png''))
         \<and> length (sanitize_filename isalnum alg) = length alg
         \<and> (\<forall>i<length alg.
               sanitize_filename isalnum alg ! i
                 = (if isalnum (alg ! i) \<or> alg ! i = CHR ''.'' \<or> alg ! i = CHR ''_''
                       \<or> alg ! i = CHR ''-''
                    then alg ! i else CHR ''_''))"
proof -
  have a: "\<forall>p. plot_per_algorithm isalnum draw m k y out_dir = Inr p
             \<longrightarrow> p = out_dir @ ''/hist_'' @ sanitize_filename isalnum alg @ ''.png''"
    using assms plot_per_algorithm_Inr [of isalnum draw m k y out_dir] by auto
  have b: "numBuckets m = Some nb \<and> nb \<noteq> 0 \<and> numInputs m = Some ni \<and> k \<noteq> []
              \<and> draw (out_dir @ ''/hist_'' @ sanitize_filename isalnum alg @ ''.png'') = None
             \<longrightarrow> plot_per_algorithm isalnum draw m k y out_dir
                   = Inr (out_dir @ ''/hist_'' @ sanitize_filename isalnum alg @ ''.png'')"
    using assms by (simp add: plot_per_algorithm_def append_assoc)
  have c: "length (sanitize_filename isalnum alg) = length alg"
    by (simp add: sanitize_filename_def)
  have d: "\<forall>i<length alg.
               sanitize_filename isalnum alg ! i
                 = (if isalnum (alg ! i) \<or> alg ! i = CHR ''.'' \<or> alg ! i = CHR ''_''
                       \<or> alg ! i = CHR ''-''
                    then alg ! i else CHR ''_'')"
    by (simp add: sanitize_filename_def)
  from a b c d show ?thesis by blast
qed

theorem image_name_sanitized_witness:
  "algorithm (exported_meta ''Murmur3 (x64)'' 2 2 ''little'') = Some ''Murmur3 (x64)''
   \<and> plot_per_algorithm ascii_isalnum (\<lambda>p. None) (exported_meta ''Murmur3 (x64)'' 2 2 ''little'')
        [0, 1] [1, 1] ''run/plots'' = Inr ''run/plots/hist_Murmur3__x64_.png''
   \<and> sanitize_filename ascii_isalnum ''Murmur3 (x64)'' = ''Murmur3__x64_''"
proof -
  have h: "algorithm (exported_meta ''Murmur3 (x64)'' 2 2 ''little'') = Some ''Murmur3 (x64)''"
    by (simp add: exported_meta_def)
  have s: "sanitize_filename ascii_isalnum ''Murmur3 (x64)'' = ''Murmur3__x64_''"
    by code_simp
  have f: "numBuckets (exported_meta ''Murmur3 (x64)'' 2 2 ''little'') = Some 2 \<and> (2::int) \<noteq> 0
           \<and> numInputs (exported_meta ''Murmur3 (x64)'' 2 2 ''little'') = Some 2
           \<and> [0, 1 :: int] \<noteq> []"
    by (simp add: exported_meta_def)
  from image_name_sanitized [OF h, where nb = 2 and ni = 2 and k = "[0, 1]" and draw = "\<lambda>p. None"
         and out_dir = "''run/plots''" and isalnum = ascii_isalnum and y = "[1, 1]"]
  have "plot_per_algorithm ascii_isalnum (\<lambda>p. None) (exported_meta ''Murmur3 (x64)'' 2 2 ''little'')
          [0, 1] [1, 1] ''run/plots''
        = Inr (''run/plots'' @ ''/hist_'' @ sanitize_filename ascii_isalnum ''Murmur3 (x64)'' @ ''.png'')"
    using f by blast
  with h s show ?thesis by simp
qed

text \<open>
  Claim C10. Sanitizing is idempotent: every character of a sanitized string is
  alphanumeric or one of \<open>.\<close>, \<open>_\<close>, \<open>-\<close>, so a second application keeps all of them.
\<close>

theorem sanitize_filename_idempotent:
  "sanitize_filename isalnum (sanitize_filename isalnum s) = sanitize_filename isalnum s
   \<and> list_all (\<lambda>c. isalnum c \<or> c \<in> set ''._-'') (sanitize_filename isalnum s)"
  by (induction s) (simp_all add: sanitize_filename_def)

subsection \<open>Loading\<close>

lemma length_fromfile: "length (fromfile bo bs) = length bs div 4"
  by (induction bo bs rule: fromfile.induct) simp_all

lemma load_algorithm_read:
  assumes "json_files f meta_path = Some m"
    and "countsFile m = Some cf"
    and "bin_files f (path_join parent cf) = Some bytes"
    and "numBuckets m = Some nb"
  shows "load_algorithm native f parent meta_path =
           (if int (length bytes div 4) \<noteq> nb
            then Inl (ValueError (''Counts size '' @ show_int (int (length bytes div 4))
                        @ '' != numBuckets '' @ show_int nb @ '' for '' @ meta_path))
            else Inr (m, fromfile (counts_dtype native m) bytes))"
  using assms by (simp add: load_algorithm_def length_fromfile Let_def)

lemma big_not_little:
  assumes "startswith e ''big''"
  shows "\<not> startswith e ''little''"
  using assms by (cases e) (simp_all add: startswith_def)

text \<open>
  Claim C4. When the metadata file, its \<^verbatim>\<open>countsFile\<close> and \<^verbatim>\<open>numBuckets\<close> fields and
  the counts file are there: if the number of 32-bit items read differs from the
  declared bucket count, \<^verbatim>\<open>load_algorithm\<close> raises the \<^verbatim>\<open>ValueError\<close> whose message
  gives the number read, the declared count and the path of the metadata file, and
  returns no pair; if the two are equal it returns the metadata and the counts.
\<close>

theorem load_algorithm_size_check:
  assumes "json_files f meta_path = Some m"
    and "countsFile m = Some cf"
    and "bin_files f (path_join parent cf) = Some bytes"
    and "numBuckets m = Some nb"
  shows "(int (length bytes div 4) \<noteq> nb \<longrightarrow>
            load_algorithm native f parent meta_path
              = Inl (ValueError (''Counts size '' @ show_int (int (length bytes div 4))
                      @ '' != numBuckets '' @ show_int nb @ '' for '' @ meta_path)))
         \<and> (int (length bytes div 4) = nb \<longrightarrow>
              (\<exists>counts. load_algorithm native f parent meta_path = Inr (m, counts)
                 \<and> int (length counts) = nb))"
  using load_algorithm_read [OF assms, of native] by (simp add: length_fromfile)

theorem load_algorithm_size_check_witness:
  "load_algorithm Little
     (run_directory ''run'' [(exported_meta ''XXH3'' 5 5 ''little'', le_bytes [1, 0, 2, 2])])
     ''run'' ''run/XXH3.meta.json''
   = Inl (ValueError ''Counts size 4 != numBuckets 5 for run/XXH3.meta.json'')
   \<and> (\<exists>counts. load_algorithm Little
         (run_directory ''run'' [(exported_meta ''XXH3'' 4 5 ''little'', le_bytes [1, 0, 2, 2])])
         ''run'' ''run/XXH3.meta.json''
       = Inr (exported_meta ''XXH3'' 4 5 ''little'', counts) \<and> int (length counts) = 4)"
proof -
  let ?bytes = "le_bytes [1, 0, 2, 2]"
  let ?f5 = "run_directory ''run'' [(exported_meta ''XXH3'' 5 5 ''little'', ?bytes)]"
  let ?f4 = "run_directory ''run'' [(exported_meta ''XXH3'' 4 5 ''little'', ?bytes)]"
  have j5: "json_files ?f5 ''run/XXH3.meta.json'' = Some (exported_meta ''XXH3'' 5 5 ''little'')"
    by code_simp
  have c5: "countsFile (exported_meta ''XXH3'' 5 5 ''little'') = Some ''XXH3_counts_i32_le.bin''"
    by code_simp
  have b5: "bin_files ?f5 (path_join ''run'' ''XXH3_counts_i32_le.bin'') = Some ?bytes"
    by code_simp
  have n5: "numBuckets (exported_meta ''XXH3'' 5 5 ''little'') = Some 5"
    by code_simp
  have j4: "json_files ?f4 ''run/XXH3.meta.json'' = Some (exported_meta ''XXH3'' 4 5 ''little'')"
    by code_simp
  have c4: "countsFile (exported_meta ''XXH3'' 4 5 ''little'') = Some ''XXH3_counts_i32_le.bin''"
    by code_simp
  have b4: "bin_files ?f4 (path_join ''run'' ''XXH3_counts_i32_le.bin'') = Some ?bytes"
    by code_simp
  have n4: "numBuckets (exported_meta ''XXH3'' 4 5 ''little'') = Some 4"
    by code_simp
  have len: "int (length ?bytes div 4) = 4" by code_simp
  have msg: "''Counts size '' @ show_int 4 @ '' != numBuckets '' @ show_int 5 @ '' for ''
               @ ''run/XXH3.meta.json''
             = ''Counts size 4 != numBuckets 5 for run/XXH3.meta.json''"
    by code_simp
  from load_algorithm_size_check [OF j5 c5 b5 n5, of Little] len msg
  have one: "load_algorithm Little ?f5 ''run'' ''run/XXH3.meta.json''
               = Inl (ValueError ''Counts size 4 != numBuckets 5 for run/XXH3.meta.json'')"
    by simp
  from load_algorithm_size_check [OF j4 c4 b4 n4, of Little] len
  have two: "\<exists>counts. load_algorithm Little ?f4 ''run'' ''run/XXH3.meta.json''
               = Inr (exported_meta ''XXH3'' 4 5 ''little'', counts) \<and> int (length counts) = 4"
    by simp
  from one two show ?thesis by blast
qed

text \<open>
  Claim C5, as the code has it. When the files are there and the size check passes,
  the counts are the bytes of the counts file read as 32-bit signed integers:
  little-endian when the \<^verbatim>\<open>endianness\<close> field is missing or its lower-cased value starts
  with \<open>little\<close>, big-endian when it starts with \<open>big\<close>, and in the byte order of the
  host for any other value.
\<close>

theorem load_algorithm_byte_order:
  assumes "json_files f meta_path = Some m"
    and "countsFile m = Some cf"
    and "bin_files f (path_join parent cf) = Some bytes"
    and "numBuckets m = Some (int (length bytes div 4))"
  shows "(endianness m = None \<longrightarrow>
            load_algorithm native f parent meta_path = Inr (m, fromfile Little bytes))
         \<and> (\<forall>e. endianness m = Some e \<longrightarrow>
               (startswith (lower e) ''little'' \<longrightarrow>
                  load_algorithm native f parent meta_path = Inr (m, fromfile Little bytes))
               \<and> (startswith (lower e) ''big'' \<longrightarrow>
                  load_algorithm native f parent meta_path = Inr (m, fromfile Big bytes))
               \<and> (\<not> startswith (lower e) ''little'' \<and> \<not> startswith (lower e) ''big'' \<longrightarrow>
                  load_algorithm native f parent meta_path = Inr (m, fromfile native bytes)))"
proof -
  have l: "load_algorithm native f parent meta_path = Inr (m, fromfile (counts_dtype native m) bytes)"
    using load_algorithm_read [OF assms, of native] by simp
  have none: "endianness m = None \<Longrightarrow> counts_dtype native m = Little"
    by (simp add: counts_dtype_def startswith_def lower_def lower_char_def)
  have little: "counts_dtype native m = Little"
    if "endianness m = Some e" and "startswith (lower e) ''little''" for e
    using that by (simp add: counts_dtype_def)
  have big: "counts_dtype native m = Big"
    if "endianness m = Some e" and "startswith (lower e) ''big''" for e
    using that big_not_little [of "lower e"] by (simp add: counts_dtype_def)
  have other: "counts_dtype native m = native"
    if "endianness m = Some e" and "\<not> startswith (lower e) ''little''"
      and "\<not> startswith (lower e) ''big''" for e
    using that by (simp add: counts_dtype_def)
  show ?thesis
    unfolding l using none little big other by auto
qed

theorem load_algorithm_byte_order_witness:
  "load_algorithm Little
     (run_directory ''run'' [(exported_meta ''A'' 1 1 ''Big-Endian'', [0, 0, 0, 1])])
     ''run'' ''run/A.meta.json''
   = Inr (exported_meta ''A'' 1 1 ''Big-Endian'', fromfile Big [0, 0, 0, 1])
   \<and> fromfile Big [0, 0, 0, 1] = [1]
   \<and> fromfile Little [0, 0, 0, 1] = [16777216]
   \<and> startswith (lower ''Big-Endian'') ''big''"
proof -
  let ?m = "exported_meta ''A'' 1 1 ''Big-Endian''"
  let ?f = "run_directory ''run'' [(?m, [0, 0, 0, 1])]"
  have j: "json_files ?f ''run/A.meta.json'' = Some ?m" by code_simp
  have c: "countsFile ?m = Some ''A_counts_i32_le.bin''" by code_simp
  have b: "bin_files ?f (path_join ''run'' ''A_counts_i32_le.bin'') = Some [0, 0, 0, 1]"
    by code_simp
  have n: "numBuckets ?m = Some (int (length [0, 0, 0, 1 :: 8 word] div 4))" by code_simp
  have e: "endianness ?m = Some ''Big-Endian''" by code_simp
  have s: "startswith (lower ''Big-Endian'') ''big''" by code_simp
  have v: "fromfile Big [0, 0, 0, 1] = [1] \<and> fromfile Little [0, 0, 0, 1] = [16777216]"
    by code_simp
  from load_algorithm_byte_order [OF j c b n, of Little] e s
  have "load_algorithm Little ?f ''run'' ''run/A.meta.json'' = Inr (?m, fromfile Big [0, 0, 0, 1])"
    by blast
  with s v show ?thesis by blast
qed

theorem unrecognised_endianness_counterexample:
  "load_algorithm Big
     (run_directory ''run'' [(exported_meta ''A'' 1 1 ''middle'', [1, 0, 0, 0])])
     ''run'' ''run/A.meta.json''
   = Inr (exported_meta ''A'' 1 1 ''middle'', [16777216])
   \<and> fromfile Little [1, 0, 0, 0] = [1]
   \<and> \<not> startswith (lower ''middle'') ''little''
   \<and> \<not> startswith (lower ''middle'') ''big''"
  by code_simp

subsection \<open>Alignment for the overlay\<close>

lemma last_upto:
  assumes "i \<le> j"
  shows "last [i..j] = j"
  using assms by (simp add: upto_rec2)

lemma upto_nonempty: "[0..n] \<noteq> [] \<longleftrightarrow> 0 \<le> n"
  by (simp add: upto.simps)

lemma take_upto:
  assumes "0 \<le> a" and "a \<le> n"
  shows "take (nat (a + 1)) [0..n] = [0..a]"
proof -
  have "take (nat (a + 1)) (map int [0..<nat (n + 1)]) = map int [0..<nat (a + 1)]"
    using assms by (intro take_map_upt) simp
  then show ?thesis
    using assms by (simp add: upto_eq_map_int_nat)
qed

lemma compute_hist_shape:
  assumes "compute_hist counts mk = Inr (k, y)" and "k \<noteq> []"
  shows "k = [0..last k] \<and> 0 \<le> last k \<and> length y = length k"
proof -
  from assms(1) obtain hist where b: "bincount counts = Inr hist"
    by (auto simp: compute_hist_def split: sum.splits)
  define n where
    "n = (case mk of None \<Rightarrow> int (length hist) - 1 | Some m \<Rightarrow> min m (int (length hist) - 1))"
  have k: "k = [0..n]" and y: "y = slice_to hist (n + 1)"
    using assms(1) b by (simp_all add: compute_hist_def n_def Let_def)
  have n: "n \<le> int (length hist) - 1"
    by (auto simp: n_def split: option.splits)
  have n0: "0 \<le> n" using assms(2) k by (simp add: upto_nonempty)
  have "length y = nat (n + 1)"
    using n n0 by (simp add: y slice_to_def)
  then show ?thesis
    using n0 by (simp add: k last_upto)
qed

lemma plot_per_algorithm_nonempty:
  assumes "plot_per_algorithm isalnum draw m k y out_dir = Inr p"
  shows "k \<noteq> []"
  using assms by (auto simp: plot_per_algorithm_def split: option.splits if_splits)

lemma run_algorithms_shape:
  assumes "run_algorithms p f mk out_dir files = Inr (tabs, imgs)"
  shows "length tabs = length files
         \<and> (\<forall>(m, k, y)\<in>set tabs. k \<noteq> [] \<and> k = [0..last k] \<and> length y = length k)"
  using assms
proof (induction files arbitrary: tabs imgs)
  case Nil
  then show ?case by simp
next
  case (Cons meta_path rest)
  from Cons.prems obtain m counts k y img tabs' imgs' where
    ch: "compute_hist counts mk = Inr (k, y)"
    and pl: "plot_per_algorithm (str_isalnum p) (drawing p) m k y out_dir = Inr img"
    and rest: "run_algorithms p f mk out_dir rest = Inr (tabs', imgs')"
    and tabs: "tabs = (m, k, y) # tabs'"
    by (auto split: sum.splits prod.splits)
  have "k \<noteq> []" using pl by (rule plot_per_algorithm_nonempty)
  with compute_hist_shape [OF ch] Cons.IH [OF rest] show ?case
    by (simp add: tabs)
qed

lemma last_ks_nonempty:
  assumes "\<forall>(m, k, y)\<in>set tabs. k \<noteq> []"
  shows "last_ks tabs = Inr (map (\<lambda>(m, k, y). last k) tabs)"
  using assms by (induction tabs) auto

lemma align_tables:
  assumes ne: "tabs \<noteq> []"
    and wf: "\<forall>(m, k, y)\<in>set tabs. k \<noteq> [] \<and> k = [0..last k] \<and> length y = length k"
  shows "0 \<le> Min (set (map (\<lambda>(m, k, y). last k) tabs))
         \<and> align tabs
             = Inr (map (\<lambda>(m, k, y).
                      (m, [0..Min (set (map (\<lambda>(m, k, y). last k) tabs))],
                       take (nat (Min (set (map (\<lambda>(m, k, y). last k) tabs))) + 1) y)) tabs)"
proof -
  define ls where "ls = map (\<lambda>(m, k, y). last k) tabs"
  define mn where "mn = Min (set ls)"
  have ls_ne: "ls \<noteq> []" using ne by (simp add: ls_def)
  have lk: "last_ks tabs = Inr ls"
    unfolding ls_def using wf by (intro last_ks_nonempty) auto
  have pos: "0 \<le> last k" if "(m, k, y) \<in> set tabs" for m k y
  proof -
    from wf that have "k \<noteq> []" and "k = [0..last k]" by auto
    then have "[0..last k] \<noteq> []" by simp
    then show ?thesis by (simp add: upto_nonempty)
  qed
  have "mn \<in> set ls" unfolding mn_def using ls_ne by (intro Min_in) simp_all
  then have mn0: "0 \<le> mn" using pos by (auto simp: ls_def)
  have le: "mn \<le> last k" if "(m, k, y) \<in> set tabs" for m k y
  proof -
    have "last k \<in> set ls" using that by (force simp: ls_def)
    then show ?thesis unfolding mn_def by simp
  qed
  have row: "(if last k > mn then (m, slice_to k (mn + 1), slice_to y (mn + 1)) else (m, k, y))
               = (m, [0..mn], take (nat mn + 1) y)"
    if t: "(m, k, y) \<in> set tabs" for m k y
  proof (cases "last k > mn")
    case True
    from wf t have "k = [0..last k]" by auto
    then have "take (nat (mn + 1)) k = [0..mn]"
      using take_upto [OF mn0, of "last k"] True by simp
    moreover have "nat (mn + 1) = nat mn + 1" using mn0 by simp
    ultimately show ?thesis using True mn0 by (simp add: slice_to_def)
  next
    case False
    with le [OF t] have eq: "last k = mn" by simp
    from wf t have k: "k = [0..mn]" and len: "length y = length k" using eq by auto
    have "length y = nat mn + 1" using len mn0 by (subst (asm) k) simp
    then show ?thesis using False k by simp
  qed
  have a1: "align tabs
              = Inr (map (\<lambda>(m, k, y). if last k > mn
                                      then (m, slice_to k (mn + 1), slice_to y (mn + 1))
                                      else (m, k, y)) tabs)"
    unfolding align_def lk mn_def Let_def using ls_ne by simp
  have a2: "map (\<lambda>(m, k, y). if last k > mn then (m, slice_to k (mn + 1), slice_to y (mn + 1))
                              else (m, k, y)) tabs
          = map (\<lambda>(m, k, y). (m, [0..mn], take (nat mn + 1) y)) tabs"
    using row by (intro map_cong) auto
  from a1 a2 have "align tabs = Inr (map (\<lambda>(m, k, y). (m, [0..mn], take (nat mn + 1) y)) tabs)"
    by (simp only:)
  with mn0 show ?thesis
    unfolding mn_def ls_def by blast
qed

lemma align_row:
  assumes k: "k = [0..last k]" and len: "length y = length k"
    and mn0: "0 \<le> mn" and le: "mn \<le> last k"
  shows "[0..mn] = take (nat mn + 1) k"
    and "last [0..mn] = mn"
    and "length [0..mn] = nat mn + 1"
    and "length [0..mn] \<le> length k"
    and "last k \<le> mn \<longrightarrow> [0..mn] = k \<and> take (nat mn + 1) y = y"
proof -
  have s: "nat (mn + 1) = nat mn + 1" using mn0 by simp
  have "take (nat (mn + 1)) [0..last k] = [0..mn]"
    using mn0 le by (rule take_upto)
  then show "[0..mn] = take (nat mn + 1) k"
    using k s by simp
  show "last [0..mn] = mn" using mn0 by (rule last_upto)
  show l: "length [0..mn] = nat mn + 1" using mn0 by simp
  have "length k = nat (last k) + 1"
    using mn0 le by (subst k) simp
  then show "length [0..mn] \<le> length k"
    using l le by simp
  show "last k \<le> mn \<longrightarrow> [0..mn] = k \<and> take (nat mn + 1) y = y"
  proof
    assume "last k \<le> mn"
    with le have e: "last k = mn" by simp
    then have ke: "[0..mn] = k" using k by simp
    then have "length y = nat mn + 1" using len l by simp
    with ke show "[0..mn] = k \<and> take (nat mn + 1) y = y" by simp
  qed
qed

lemma overlay_lines_nth:
  assumes "overlay_lines True tabs = Inr ls" and "i < length tabs" and "tabs ! i = (m, k, y)"
  shows "\<exists>label. algorithm m = Some label \<and> ls ! i = (label, k, normalized y)"
  using assms
proof (induction tabs arbitrary: ls i)
  case Nil
  then show ?case by simp
next
  case (Cons t tabs)
  obtain m0 k0 y0 where t: "t = (m0, k0, y0)" by (cases t) auto
  from Cons.prems(1) obtain label0 ls0 where
    l0: "algorithm m0 = Some label0"
    and r: "overlay_lines True tabs = Inr ls0"
    and ls: "ls = (label0, k0, normalized y0) # ls0"
    by (auto simp: t split: option.splits sum.splits)
  show ?case
  proof (cases i)
    case 0
    with Cons.prems(3) t l0 ls show ?thesis by simp
  next
    case (Suc i')
    with Cons.prems(2,3) have "i' < length tabs" and "tabs ! i' = (m, k, y)" by simp_all
    from Cons.IH [OF r this] show ?thesis by (simp add: ls Suc)
  qed
qed


lemma overlay_lines_length:
  assumes "overlay_lines nrm tabs = Inr ls"
  shows "length ls = length tabs"
  using assms
  by (induction tabs arbitrary: ls) (auto split: option.splits sum.splits)

text \<open>
  Claim C6. When the driver returns and the overlay was requested, the lines of the
  overlay chart are those of the tables of the loop after alignment. With \<open>mn\<close> the
  least of the last \<open>k\<close> values of these tables, the line of every table has the domain
  \<open>0..mn\<close>, which ends at \<open>mn\<close> and is a prefix of the table's domain, and the
  normalized frequencies of that prefix; no domain gets longer, and a table whose last
  \<open>k\<close> is not above \<open>mn\<close> is plotted whole. Without the flag there is no overlay.
\<close>

theorem overlay_alignment:
  assumes ret: "main p f a = Inr out"
  shows "(\<not> overlay a \<longrightarrow> overlay_series out = None)
         \<and> (overlay a \<longrightarrow>
              (\<exists>tabs imgs ls mn.
                 run_algorithms p f (max_k a) (main_out_dir a) (main_meta_files f a) = Inr (tabs, imgs)
                 \<and> overlay_series out = Some ls
                 \<and> length ls = length tabs
                 \<and> mn = Min (set (map (\<lambda>(m, k, y). last k) tabs))
                 \<and> (\<forall>i<length tabs. \<exists>m k y label.
                       tabs ! i = (m, k, y) \<and> algorithm m = Some label
                       \<and> ls ! i = (label, [0..mn], normalized (take (nat mn + 1) y))
                       \<and> last [0..mn] = mn
                       \<and> [0..mn] = take (nat mn + 1) k
                       \<and> length [0..mn] \<le> length k
                       \<and> (last k \<le> mn \<longrightarrow> [0..mn] = k \<and> take (nat mn + 1) y = y))))"
proof (intro conjI impI)
  assume "\<not> overlay a"
  with ret show "overlay_series out = None"
    unfolding main_def Let_def
    by (auto split: if_splits option.splits sum.splits prod.splits)
next
  assume ov: "overlay a"
  from ret ov obtain tabs imgs aligned img ls where
    run: "run_algorithms p f (max_k a) (main_out_dir a) (main_meta_files f a) = Inr (tabs, imgs)"
    and al: "align tabs = Inr aligned"
    and po: "plot_overlay (drawing p) aligned (main_out_dir a) True = Inr (img, ls)"
    and out: "overlay_series out = Some ls"
    and ne: "main_meta_files f a \<noteq> []"
    unfolding main_def Let_def
    by (auto split: if_splits option.splits sum.splits prod.splits)
  define mn where "mn = Min (set (map (\<lambda>(m, k, y). last k) tabs))"
  from run_algorithms_shape [OF run]
  have len: "length tabs = length (main_meta_files f a)"
    and wf: "\<forall>(m, k, y)\<in>set tabs. k \<noteq> [] \<and> k = [0..last k] \<and> length y = length k"
    by blast+
  have tne: "tabs \<noteq> []" using len ne by auto
  from align_tables [OF tne wf] al
  have mn0: "0 \<le> mn"
    and aligned: "aligned = map (\<lambda>(m, k, y). (m, [0..mn], take (nat mn + 1) y)) tabs"
    by (simp_all add: mn_def)
  from po have ol: "overlay_lines True aligned = Inr ls"
    by (auto simp: plot_overlay_def Let_def split: sum.splits option.splits)
  have ll: "length ls = length tabs"
    using overlay_lines_length [OF ol] by (simp add: aligned)
  have rows: "\<exists>m k y label.
                tabs ! i = (m, k, y) \<and> algorithm m = Some label
                \<and> ls ! i = (label, [0..mn], normalized (take (nat mn + 1) y))
                \<and> last [0..mn] = mn
                \<and> [0..mn] = take (nat mn + 1) k
                \<and> length [0..mn] \<le> length k
                \<and> (last k \<le> mn \<longrightarrow> [0..mn] = k \<and> take (nat mn + 1) y = y)"
    if i: "i < length tabs" for i
  proof -
    obtain m k y where t: "tabs ! i = (m, k, y)" by (cases "tabs ! i") auto
    have mem: "(m, k, y) \<in> set tabs" using i t by (metis nth_mem)
    with wf have k: "k = [0..last k]" and ly: "length y = length k" by auto
    have "last k \<in> set (map (\<lambda>(m, k, y). last k) tabs)" using mem by force
    then have le: "mn \<le> last k" unfolding mn_def by simp
    have ai: "i < length aligned" and a: "aligned ! i = (m, [0..mn], take (nat mn + 1) y)"
      using i t by (simp_all add: aligned)
    from overlay_lines_nth [OF ol ai a] obtain label where
      "algorithm m = Some label" and "ls ! i = (label, [0..mn], normalized (take (nat mn + 1) y))"
      by blast
    with align_row [OF k ly mn0 le] t show ?thesis by blast
  qed
  from run out ll rows show "\<exists>tabs imgs ls mn.
                 run_algorithms p f (max_k a) (main_out_dir a) (main_meta_files f a) = Inr (tabs, imgs)
                 \<and> overlay_series out = Some ls
                 \<and> length ls = length tabs
                 \<and> mn = Min (set (map (\<lambda>(m, k, y). last k) tabs))
                 \<and> (\<forall>i<length tabs. \<exists>m k y label.
                       tabs ! i = (m, k, y) \<and> algorithm m = Some label
                       \<and> ls ! i = (label, [0..mn], normalized (take (nat mn + 1) y))
                       \<and> last [0..mn] = mn
                       \<and> [0..mn] = take (nat mn + 1) k
                       \<and> length [0..mn] \<le> length k
                       \<and> (last k \<le> mn \<longrightarrow> [0..mn] = k \<and> take (nat mn + 1) y = y))"
    unfolding mn_def by blast
qed


theorem overlay_alignment_witness:
  "main (host Little) two_algorithms (overlay_args ''./run'')
     = Inr \<lparr>printed = [''Done. Plots written to: run/plots''],
            images = [''run/plots/hist_A.png'', ''run/plots/hist_B.png'',
                      ''run/plots/hist_overlay.png''],
            overlay_series = Some [(''A'', [0, 1], normalized [1, 1]),
                                   (''B'', [0, 1], normalized [1, 2])]\<rparr>
   \<and> run_algorithms (host Little) two_algorithms None ''run/plots''
         [''run/A.meta.json'', ''run/B.meta.json'']
       = Inr ([(meta_A, [0, 1, 2], [1, 1, 1]), (meta_B, [0, 1], [1, 2])],
              [''run/plots/hist_A.png'', ''run/plots/hist_B.png''])
   \<and> (\<exists>tabs imgs ls mn.
         run_algorithms (host Little) two_algorithms (max_k (overlay_args ''./run''))
           (main_out_dir (overlay_args ''./run''))
           (main_meta_files two_algorithms (overlay_args ''./run'')) = Inr (tabs, imgs)
         \<and> Some [(''A'', [0, 1], normalized [1, 1]), (''B'', [0, 1], normalized [1, 2])] = Some ls
         \<and> length ls = length tabs
         \<and> mn = Min (set (map (\<lambda>(m, k, y). last k) tabs))
         \<and> (\<forall>i<length tabs. \<exists>m k y label.
               tabs ! i = (m, k, y) \<and> algorithm m = Some label
               \<and> ls ! i = (label, [0..mn], normalized (take (nat mn + 1) y))
               \<and> last [0..mn] = mn
               \<and> [0..mn] = take (nat mn + 1) k
               \<and> length [0..mn] \<le> length k
               \<and> (last k \<le> mn \<longrightarrow> [0..mn] = k \<and> take (nat mn + 1) y = y)))"
proof -
  let ?out = "\<lparr>printed = [''Done. Plots written to: run/plots''],
            images = [''run/plots/hist_A.png'', ''run/plots/hist_B.png'',
                      ''run/plots/hist_overlay.png''],
            overlay_series = Some [(''A'', [0, 1], normalized [1, 1]),
                                   (''B'', [0, 1], normalized [1, 2])]\<rparr>"
  have ret: "main (host Little) two_algorithms (overlay_args ''./run'') = Inr ?out"
    by code_simp
  have ov: "overlay (overlay_args ''./run'')" by code_simp
  have run: "run_algorithms (host Little) two_algorithms None ''run/plots''
               [''run/A.meta.json'', ''run/B.meta.json'']
             = Inr ([(meta_A, [0, 1, 2], [1, 1, 1]), (meta_B, [0, 1], [1, 2])],
                    [''run/plots/hist_A.png'', ''run/plots/hist_B.png''])"
    by code_simp
  from overlay_alignment [OF ret] ov
  have "\<exists>tabs imgs ls mn.
         run_algorithms (host Little) two_algorithms (max_k (overlay_args ''./run''))
           (main_out_dir (overlay_args ''./run''))
           (main_meta_files two_algorithms (overlay_args ''./run'')) = Inr (tabs, imgs)
         \<and> overlay_series ?out = Some ls
         \<and> length ls = length tabs
         \<and> mn = Min (set (map (\<lambda>(m, k, y). last k) tabs))
         \<and> (\<forall>i<length tabs. \<exists>m k y label.
               tabs ! i = (m, k, y) \<and> algorithm m = Some label
               \<and> ls ! i = (label, [0..mn], normalized (take (nat mn + 1) y))
               \<and> last [0..mn] = mn
               \<and> [0..mn] = take (nat mn + 1) k
               \<and> length [0..mn] \<le> length k
               \<and> (last k \<le> mn \<longrightarrow> [0..mn] = k \<and> take (nat mn + 1) y = y))"
    by blast
  then have "\<exists>tabs imgs ls mn.
         run_algorithms (host Little) two_algorithms (max_k (overlay_args ''./run''))
           (main_out_dir (overlay_args ''./run''))
           (main_meta_files two_algorithms (overlay_args ''./run'')) = Inr (tabs, imgs)
         \<and> Some [(''A'', [0, 1], normalized [1, 1]), (''B'', [0, 1], normalized [1, 2])] = Some ls
         \<and> length ls = length tabs
         \<and> mn = Min (set (map (\<lambda>(m, k, y). last k) tabs))
         \<and> (\<forall>i<length tabs. \<exists>m k y label.
               tabs ! i = (m, k, y) \<and> algorithm m = Some label
               \<and> ls ! i = (label, [0..mn], normalized (take (nat mn + 1) y))
               \<and> last [0..mn] = mn
               \<and> [0..mn] = take (nat mn + 1) k
               \<and> length [0..mn] \<le> length k
               \<and> (last k \<le> mn \<longrightarrow> [0..mn] = k \<and> take (nat mn + 1) y = y))"
    by simp
  with ret run show ?thesis by blast
qed

subsection \<open>Rounding\<close>





lemma round64_0: "round64 0 = 0"
  by (simp add: round64_def)


subsection \<open>The Poisson curve\<close>



lemma poisson_p_zero_rate:
  "poisson_p ex 0 (Suc k) = 0"
  by (simp add: fmul_def fdiv_def round64_0)










subsection \<open>Normalization in the overlay\<close>

text \<open>
  Claim C7, at an input where the code departs from it. In the run with the algorithms
  \<open>A\<close> (buckets of 0, 1 and 2 items) and \<open>B\<close> (buckets of 0, 1 and 1 items) and the
  overlay requested, the table of \<open>A\<close> is cut to \<open>k = 0..1\<close> before it is normalized:
  the value plotted for \<open>A\<close> at \<open>k = 0\<close> is \<open>1 / 2\<close>, while one of the three buckets
  of \<open>A\<close> holds no item, a fraction that is \<open>6004799503160661 / 18014398509481984\<close> as a
  binary64 number.
\<close>

theorem overlay_plots_truncated_fraction:
  "main (host Little) two_algorithms (overlay_args ''run'')
   = Inr \<lparr>printed = [''Done. Plots written to: run/plots''],
          images = [''run/plots/hist_A.png'', ''run/plots/hist_B.png'', ''run/plots/hist_overlay.png''],
          overlay_series =
            Some [(''A'', [0, 1], [Val (1 / 2), Val (1 / 2)]),
                  (''B'', [0, 1], [Val (6004799503160661 / 18014398509481984),
                                   Val (6004799503160661 / 9007199254740992)])]\<rparr>
   \<and> load_algorithm Little two_algorithms ''run'' ''run/A.meta.json'' = Inr (meta_A, [0, 1, 2])
   \<and> compute_hist [0, 1, 2] None = Inr ([0, 1, 2], [1, 1, 1])
   \<and> fdiv (float_of_int (int (count_list [0, 1, 2 :: int] 0)))
            (float_of_int (int (length [0, 1, 2 :: int])))
       = 6004799503160661 / 18014398509481984
   \<and> (1 / 2 :: rat) \<noteq> 6004799503160661 / 18014398509481984"
proof -
  have a: "main (host Little) two_algorithms (overlay_args ''run'')
   = Inr \<lparr>printed = [''Done. Plots written to: run/plots''],
          images = [''run/plots/hist_A.png'', ''run/plots/hist_B.png'', ''run/plots/hist_overlay.png''],
          overlay_series =
            Some [(''A'', [0, 1], [Val (1 / 2), Val (1 / 2)]),
                  (''B'', [0, 1], [Val (6004799503160661 / 18014398509481984),
                                   Val (6004799503160661 / 9007199254740992)])]\<rparr>"
    by code_simp
  have b: "load_algorithm Little two_algorithms ''run'' ''run/A.meta.json'' = Inr (meta_A, [0, 1, 2])"
    by code_simp
  have c: "compute_hist [0, 1, 2] None = Inr ([0, 1, 2], [1, 1, 1])"
    by code_simp
  have d: "fdiv (float_of_int (int (count_list [0, 1, 2 :: int] 0)))
                (float_of_int (int (length [0, 1, 2 :: int])))
           = 6004799503160661 / 18014398509481984"
    by code_simp
  have e: "(1 / 2 :: rat) \<noteq> 6004799503160661 / 18014398509481984" by simp
  from a b c d e show ?thesis by blast
qed

subsection \<open>Exit of the driver\<close>










end
